theory Spec2Isabelle
  imports Complex_Main "HOL-Library.Log_Nat" "HOL-Library.Sublist"
begin

section \<open>Python values shared by both modules\<close>

text \<open>
  The exceptions the two modules can meet. \<open>OtherError\<close> stands for whatever a library
  call (requests, PIL) raises; the code only ever catches it wholesale.
\<close>

datatype py_error =
    ZeroDivisionError
  | OverflowError
  | ValueError
  | TypeError
  | KeyError
  | OtherError

text \<open>Python's \<open>str\<close> of an integer, as the f-strings of the source use it.\<close>

fun str_nat :: "nat \<Rightarrow> string" where
  "str_nat n =
     (if n < 10 then [''0123456789'' ! n]
      else str_nat (n div 10) @ [''0123456789'' ! (n mod 10)])"

declare str_nat.simps [simp del]

definition str_int :: "int \<Rightarrow> string" where
  "str_int i = (if i < 0 then CHR ''-'' # str_nat (nat (- i)) else str_nat (nat i))"

section \<open>Python floats: IEEE 754 binary64\<close>

text \<open>
  A Python \<open>float\<close> is a binary64 number. A finite one is the rational it denotes; the two
  zeros are identified (no operation of the two modules tells them apart). Every arithmetic
  operation computes the exact rational result and rounds it to the nearest representable
  number, ties to the even mantissa.
\<close>

datatype double = Fin rat | PInf | NInf | NaN

definition pow2 :: "int \<Rightarrow> rat" where
  "pow2 e = (if 0 \<le> e then 2 ^ nat e else 1 / 2 ^ nat (- e))"

text \<open>The binary exponent of a non-zero rational: \<open>2 ^ ilog2 q \<le> \<bar>q\<bar> < 2 ^ (ilog2 q + 1)\<close>.\<close>

definition ilog2 :: "rat \<Rightarrow> int" where
  "ilog2 q =
     (if 1 \<le> \<bar>q\<bar> then bitlen \<lfloor>\<bar>q\<bar>\<rfloor> - 1
      else let k = bitlen \<lfloor>1 / \<bar>q\<bar>\<rfloor> - 1
           in if pow2 (- k) \<le> \<bar>q\<bar> then - k else - k - 1)"

definition round_half_even :: "rat \<Rightarrow> int" where
  "round_half_even x =
     (let f = \<lfloor>x\<rfloor>; r = x - of_int f
      in if r < 1 / 2 then f else if 1 / 2 < r then f + 1
         else if even f then f else f + 1)"

text \<open>
  Rounding to 53 significant bits, with the exponent bounded below by -1022 (gradual
  underflow) and not bounded above.
\<close>

definition round_rat :: "rat \<Rightarrow> rat" where
  "round_rat q =
     (if q = 0 then 0
      else let e = max (ilog2 q) (- 1022); u = pow2 (e - 52)
           in of_int (round_half_even (q / u)) * u)"

definition max_double :: rat where
  "max_double = (2 ^ 53 - 1) * 2 ^ 971"

definition round_double :: "rat \<Rightarrow> double" where
  "round_double q =
     (let r = round_rat q
      in if max_double < r then PInf else if r < - max_double then NInf else Fin r)"

text \<open>A decimal literal of the source, such as \<open>0.04\<close>, denotes the nearest double.\<close>

definition float_lit :: "rat \<Rightarrow> double" where
  "float_lit q = round_double q"

text \<open>
  Conversion of a Python \<open>int\<close> to a float and true division \<open>a / b\<close> of two ints are
  correctly rounded, and raise where the rounded result would not be finite.
\<close>

definition int_to_double :: "int \<Rightarrow> py_error + double" where
  "int_to_double n =
     (case round_double (of_int n) of Fin r \<Rightarrow> Inr (Fin r) | _ \<Rightarrow> Inl OverflowError)"

definition int_true_div :: "int \<Rightarrow> int \<Rightarrow> py_error + double" where
  "int_true_div a b =
     (if b = 0 then Inl ZeroDivisionError
      else case round_double (of_int a / of_int b) of
             Fin r \<Rightarrow> Inr (Fin r)
           | _ \<Rightarrow> Inl OverflowError)"

fun float_abs :: "double \<Rightarrow> double" where
  "float_abs (Fin a) = Fin \<bar>a\<bar>"
| "float_abs PInf = PInf"
| "float_abs NInf = PInf"
| "float_abs NaN = NaN"

fun float_sub :: "double \<Rightarrow> double \<Rightarrow> double" where
  "float_sub (Fin a) (Fin b) = round_double (a - b)"
| "float_sub NaN _ = NaN"
| "float_sub _ NaN = NaN"
| "float_sub PInf PInf = NaN"
| "float_sub NInf NInf = NaN"
| "float_sub PInf _ = PInf"
| "float_sub NInf _ = NInf"
| "float_sub _ PInf = NInf"
| "float_sub _ NInf = PInf"

fun float_mul :: "double \<Rightarrow> double \<Rightarrow> double" where
  "float_mul (Fin a) (Fin b) = round_double (a * b)"
| "float_mul NaN _ = NaN"
| "float_mul _ NaN = NaN"
| "float_mul (Fin a) PInf = (if a = 0 then NaN else if 0 < a then PInf else NInf)"
| "float_mul (Fin a) NInf = (if a = 0 then NaN else if 0 < a then NInf else PInf)"
| "float_mul PInf (Fin b) = (if b = 0 then NaN else if 0 < b then PInf else NInf)"
| "float_mul NInf (Fin b) = (if b = 0 then NaN else if 0 < b then NInf else PInf)"
| "float_mul PInf PInf = PInf"
| "float_mul NInf NInf = PInf"
| "float_mul PInf NInf = NInf"
| "float_mul NInf PInf = NInf"

fun float_lt :: "double \<Rightarrow> double \<Rightarrow> bool" where
  "float_lt (Fin a) (Fin b) = (a < b)"
| "float_lt NaN _ = False"
| "float_lt _ NaN = False"
| "float_lt _ NInf = False"
| "float_lt PInf _ = False"
| "float_lt NInf _ = True"
| "float_lt _ PInf = True"

fun float_le :: "double \<Rightarrow> double \<Rightarrow> bool" where
  "float_le (Fin a) (Fin b) = (a \<le> b)"
| "float_le NaN _ = False"
| "float_le _ NaN = False"
| "float_le NInf _ = True"
| "float_le _ PInf = True"
| "float_le _ NInf = False"
| "float_le PInf _ = False"

text \<open>\<open>x * n\<close> for a float \<open>x\<close> and an int \<open>n\<close>: the int is converted first.\<close>

definition float_mul_int :: "double \<Rightarrow> int \<Rightarrow> py_error + double" where
  "float_mul_int x n =
     (case int_to_double n of Inl e \<Rightarrow> Inl e | Inr y \<Rightarrow> Inr (float_mul x y))"

text \<open>\<open>d.get(k, default)\<close> on a dict written as its items in source order.\<close>

definition dict_get :: "('k \<times> 'v) list \<Rightarrow> 'k \<Rightarrow> 'v \<Rightarrow> 'v" where
  "dict_get d k dflt = (case map_of d k of None \<Rightarrow> dflt | Some v \<Rightarrow> v)"

section \<open>api\_client.calculate\_cost\<close>

definition base_prices :: "(string \<times> double) list" where
  "base_prices =
     [(''Turbo'', float_lit (3 / 100)),
      (''Default'', float_lit (6 / 100)),
      (''Quality'', float_lit (9 / 100))]"

definition character_prices :: "(string \<times> double) list" where
  "character_prices =
     [(''Turbo'', float_lit (4 / 100)),
      (''Default'', float_lit (7 / 100)),
      (''Quality'', float_lit (10 / 100))]"

definition calculate_cost :: "int \<Rightarrow> string \<Rightarrow> bool \<Rightarrow> py_error + double" where
  "calculate_cost image_count render_speed use_character =
     (let prices = (if use_character then character_prices else base_prices);
          price_per_image = dict_get prices render_speed (float_lit (7 / 100))
      in float_mul_int price_per_image image_count)"

section \<open>api\_client: responses and JSON bodies\<close>

text \<open>
  What \<open>response.json()\<close> can return: Python's \<open>None\<close>, a bool, an int, a float, a str,
  a list or a dict (written as its items; \<open>map_of\<close> looks a key up). The same type
  serves for the values the functions return.
\<close>

datatype json =
    JNull
  | JBool bool
  | JInt int
  | JFloat double
  | JString string
  | JArray "json list"
  | JObject "(string \<times> json) list"

text \<open>
  A response of the requests library as the code sees it: its status code, its text, and
  what \<open>response.json()\<close> does (it raises when the text is not JSON).
\<close>

record response =
  status_code :: int
  body_text :: string
  json_result :: "py_error + json"


text \<open>
  \<open>key in value\<close> for a str key: key membership in a dict, element membership in a list,
  substring test in a str, \<open>TypeError\<close> otherwise.
\<close>

fun py_contains :: "string \<Rightarrow> json \<Rightarrow> py_error + bool" where
  "py_contains k (JObject kvs) = Inr (map_of kvs k \<noteq> None)"
| "py_contains k (JArray xs) = Inr (JString k \<in> set xs)"
| "py_contains k (JString s) = Inr (sublist k s)"
| "py_contains k _ = Inl TypeError"

text \<open>\<open>value[key]\<close> for a str key: only a dict can be indexed by a str.\<close>

fun py_getitem :: "json \<Rightarrow> string \<Rightarrow> py_error + json" where
  "py_getitem (JObject kvs) k = (case map_of kvs k of None \<Rightarrow> Inl KeyError | Some v \<Rightarrow> Inr v)"
| "py_getitem _ k = Inl TypeError"

text \<open>
  \<open>str(value)\<close>: a str is returned as it is; for any other value the text is Python's
  \<open>repr\<close>, a parameter of the model.
\<close>

fun py_str :: "(json \<Rightarrow> string) \<Rightarrow> json \<Rightarrow> string" where
  "py_str repr (JString s) = s"
| "py_str repr v = repr v"

section \<open>api\_client.IdeogramAPIClient\<close>




section \<open>api\_client.parse\_api\_error\<close>

text \<open>
  The \<open>try\<close> block, with \<open>json.dumps\<close> and \<open>repr\<close> as parameters. The default of
  \<open>.get('message', str(...))\<close> is computed before the lookup, and cannot raise.
\<close>

definition parse_api_error_try ::
  "(json \<Rightarrow> string) \<Rightarrow> (json \<Rightarrow> string) \<Rightarrow> response \<Rightarrow> py_error + json" where
  "parse_api_error_try dumps repr resp =
     (case json_result resp of
        Inl e \<Rightarrow> Inl e
      | Inr error_data \<Rightarrow>
          (case py_contains ''message'' error_data of
             Inl e \<Rightarrow> Inl e
           | Inr True \<Rightarrow> py_getitem error_data ''message''
           | Inr False \<Rightarrow>
               (case py_contains ''error'' error_data of
                  Inl e \<Rightarrow> Inl e
                | Inr True \<Rightarrow>
                    (case py_getitem error_data ''error'' of
                       Inl e \<Rightarrow> Inl e
                     | Inr (JObject err) \<Rightarrow>
                         Inr (case map_of err ''message'' of
                                None \<Rightarrow> JString (py_str repr (JObject err))
                              | Some m \<Rightarrow> m)
                     | Inr err \<Rightarrow> Inr (JString (py_str repr err)))
                | Inr False \<Rightarrow> Inr (JString (dumps error_data)))))"

text \<open>The expression of the \<open>except\<close> branch: the raw text, cut at 500 characters, or the status.\<close>

definition raw_text_or_status :: "response \<Rightarrow> json" where
  "raw_text_or_status resp =
     (if body_text resp \<noteq> [] then JString (take 500 (body_text resp))
      else JString (''HTTP '' @ str_int (status_code resp)))"

text \<open>The bare \<open>except\<close> catches whatever the block raised.\<close>

definition parse_api_error ::
  "(json \<Rightarrow> string) \<Rightarrow> (json \<Rightarrow> string) \<Rightarrow> response \<Rightarrow> json" where
  "parse_api_error dumps repr resp =
     (case parse_api_error_try dumps repr resp of
        Inr result \<Rightarrow> result
      | Inl e \<Rightarrow> raw_text_or_status resp)"

text \<open>
  For concrete runs, Python's \<open>repr\<close> and \<open>json.dumps\<close> (default separators) on values
  whose strings need no escaping; how a float prints is a parameter.
\<close>

fun join :: "string \<Rightarrow> string list \<Rightarrow> string" where
  "join sep [] = []"
| "join sep [x] = x"
| "join sep (x # y # ys) = x @ sep @ join sep (y # ys)"

fun py_repr :: "(double \<Rightarrow> string) \<Rightarrow> json \<Rightarrow> string" where
  "py_repr fr JNull = ''None''"
| "py_repr fr (JBool b) = (if b then ''True'' else ''False'')"
| "py_repr fr (JInt i) = str_int i"
| "py_repr fr (JFloat d) = fr d"
| "py_repr fr (JString s) = [CHR 0x27] @ s @ [CHR 0x27]"
| "py_repr fr (JArray xs) = ''['' @ join '', '' (map (py_repr fr) xs) @ '']''"
| "py_repr fr (JObject kvs) =
     ''{'' @ join '', '' (map (\<lambda>kv. [CHR 0x27] @ fst kv @ [CHR 0x27] @ '': ''
                                   @ py_repr fr (snd kv)) kvs) @ ''}''"

fun json_dumps :: "(double \<Rightarrow> string) \<Rightarrow> json \<Rightarrow> string" where
  "json_dumps fr JNull = ''null''"
| "json_dumps fr (JBool b) = (if b then ''true'' else ''false'')"
| "json_dumps fr (JInt i) = str_int i"
| "json_dumps fr (JFloat d) = fr d"
| "json_dumps fr (JString s) = [CHR 0x22] @ s @ [CHR 0x22]"
| "json_dumps fr (JArray xs) = ''['' @ join '', '' (map (json_dumps fr) xs) @ '']''"
| "json_dumps fr (JObject kvs) =
     ''{'' @ join '', '' (map (\<lambda>kv. [CHR 0x22] @ fst kv @ [CHR 0x22] @ '': ''
                                   @ json_dumps fr (snd kv)) kvs) @ ''}''"

section \<open>image\_utils.calculate\_aspect\_ratio\<close>

text \<open>
  The table in source order (a dict iterates in insertion order). The quotients \<open>4/3\<close>,
  \<open>16/9\<close>, ... are int-by-int true divisions, the others are literals; both are the nearest
  double of the rational.
\<close>

definition aspect_ratios :: "(string \<times> double) list" where
  "aspect_ratios =
     [(''1:1'', float_lit 1),
      (''4:3'', round_double (4 / 3)),
      (''3:4'', round_double (3 / 4)),
      (''16:9'', round_double (16 / 9)),
      (''9:16'', round_double (9 / 16)),
      (''3:2'', round_double (3 / 2)),
      (''2:3'', round_double (2 / 3)),
      (''5:4'', round_double (5 / 4)),
      (''4:5'', round_double (4 / 5)),
      (''16:10'', round_double (16 / 10)),
      (''10:16'', round_double (10 / 16)),
      (''3:1'', float_lit 3),
      (''1:3'', round_double (1 / 3)),
      (''2:1'', float_lit 2),
      (''1:2'', float_lit (5 / 10))]"

text \<open>
  \<open>min(iterable, key=f)\<close>: the first item is the candidate, and a later item replaces it
  only when its key is strictly smaller. An empty iterable raises \<open>ValueError\<close>.
\<close>

fun min_by :: "('a \<Rightarrow> double) \<Rightarrow> 'a \<Rightarrow> 'a list \<Rightarrow> 'a" where
  "min_by key best [] = best"
| "min_by key best (x # xs) = min_by key (if float_lt (key x) (key best) then x else best) xs"

definition py_min :: "('a \<Rightarrow> double) \<Rightarrow> 'a list \<Rightarrow> py_error + 'a" where
  "py_min key xs = (case xs of [] \<Rightarrow> Inl ValueError | x # rest \<Rightarrow> Inr (min_by key x rest))"

text \<open>The key of the source's lambda: \<open>abs(x[1] - ratio)\<close>.\<close>

definition ratio_distance :: "double \<Rightarrow> string \<times> double \<Rightarrow> double" where
  "ratio_distance ratio x = float_abs (float_sub (snd x) ratio)"

definition calculate_aspect_ratio :: "int \<Rightarrow> int \<Rightarrow> py_error + string" where
  "calculate_aspect_ratio width height =
     (case int_true_div width height of
        Inl e \<Rightarrow> Inl e
      | Inr ratio \<Rightarrow>
          (case py_min (ratio_distance ratio) aspect_ratios of
             Inl e \<Rightarrow> Inl e
           | Inr closest_ratio \<Rightarrow> Inr (fst closest_ratio)))"

text \<open>
  The claim about this function read in exact arithmetic, for comparison with the code:
  the table with its exact rational values, and the first entry with the smallest exact
  distance \<open>\<bar>value - width / height\<bar>\<close> (a later entry wins only when strictly closer).
\<close>

definition exact_ratios :: "(string \<times> rat) list" where
  "exact_ratios =
     [(''1:1'', 1), (''4:3'', 4 / 3), (''3:4'', 3 / 4), (''16:9'', 16 / 9), (''9:16'', 9 / 16),
      (''3:2'', 3 / 2), (''2:3'', 2 / 3), (''5:4'', 5 / 4), (''4:5'', 4 / 5),
      (''16:10'', 16 / 10), (''10:16'', 10 / 16), (''3:1'', 3), (''1:3'', 1 / 3),
      (''2:1'', 2), (''1:2'', 1 / 2)]"

fun first_closest :: "rat \<Rightarrow> string \<times> rat \<Rightarrow> (string \<times> rat) list \<Rightarrow> string \<times> rat" where
  "first_closest q best [] = best"
| "first_closest q best (x # xs) =
     first_closest q (if \<bar>snd x - q\<bar> < \<bar>snd best - q\<bar> then x else best) xs"

definition spec_closest_ratio :: "int \<Rightarrow> int \<Rightarrow> string" where
  "spec_closest_ratio width height =
     (case exact_ratios of
        [] \<Rightarrow> []
      | x # xs \<Rightarrow> fst (first_closest (of_int width / of_int height) x xs))"

section \<open>image\_utils.validate\_image\_dimensions\<close>

definition min_dim :: int where
  "min_dim = 256"

definition max_dim :: int where
  "max_dim = 2048"

definition max_pixels :: int where
  "max_pixels = 4194304"

definition validate_image_dimensions :: "int \<Rightarrow> int \<Rightarrow> bool \<times> string" where
  "validate_image_dimensions width height =
     (if width < min_dim \<or> height < min_dim then
        (False, ''Image dimensions too small. Minimum dimension is '' @ str_int min_dim @ ''px'')
      else if width > max_dim \<or> height > max_dim then
        (False, ''Image dimensions too large. Maximum dimension is '' @ str_int max_dim @ ''px'')
      else if width * height > max_pixels then
        (False, ''Image resolution too high. Maximum is '' @ str_int max_pixels @ '' pixels'')
      else (True, ''Valid dimensions''))"

section \<open>Pillow images\<close>

text \<open>
  An image of the Pillow library: its mode string, its size, and its pixel data. The pixel
  data is kept symbolic, as the library call that produced it from the data of its
  arguments; \<open>Source\<close> is the data of an image the caller supplied.
\<close>

type_synonym rgb = "nat \<times> nat \<times> nat"

datatype resample = NEAREST | BILINEAR | BICUBIC | LANCZOS

datatype font = TrueType string nat | DefaultFont

datatype pixels =
    Source nat
  | Filled rgb
  | Text pixels "int \<times> int" string rgb font
  | Pasted pixels pixels "pixels option"
  | Band pixels nat
  | Converted pixels string
  | Resized pixels "nat \<times> nat" resample

record image =
  im_mode :: string
  im_width :: nat
  im_height :: nat
  im_data :: pixels

text \<open>\<open>image.resize(size, filter)\<close> returns a new image of the requested size.\<close>

definition pil_resize :: "image \<Rightarrow> nat \<times> nat \<Rightarrow> resample \<Rightarrow> image" where
  "pil_resize img size_wh flt =
     \<lparr>im_mode = im_mode img, im_width = fst size_wh, im_height = snd size_wh,
      im_data = Resized (im_data img) size_wh flt\<rparr>"

section \<open>More float operations\<close>

text \<open>Python's \<open>a / b\<close> on two floats raises when the divisor is zero.\<close>

fun float_div :: "double \<Rightarrow> double \<Rightarrow> py_error + double" where
  "float_div a (Fin b) =
     (if b = 0 then Inl ZeroDivisionError
      else Inr (case a of
                  Fin x \<Rightarrow> round_double (x / b)
                | PInf \<Rightarrow> if 0 < b then PInf else NInf
                | NInf \<Rightarrow> if 0 < b then NInf else PInf
                | NaN \<Rightarrow> NaN))"
| "float_div NaN _ = Inr NaN"
| "float_div _ NaN = Inr NaN"
| "float_div (Fin x) _ = Inr (Fin 0)"
| "float_div _ _ = Inr NaN"

text \<open>The integer square root, by the digit recurrence on base 4.\<close>

fun isqrt :: "nat \<Rightarrow> nat" where
  "isqrt n =
     (if n < 2 then n
      else let r = 2 * isqrt (n div 4)
           in if (r + 1) * (r + 1) \<le> n then r + 1 else r)"

declare isqrt.simps [simp del]

text \<open>
  The square root of a positive rational, correctly rounded to 53 bits: with \<open>u\<close> the unit
  of the result's binade, \<open>m\<close> is the integer part of \<open>sqrt q / u\<close>, and the comparison
  of \<open>q / u\<^sup>2\<close> with \<open>(m + 1/2)\<^sup>2\<close> decides the rounding.
\<close>

definition sqrt_round :: "rat \<Rightarrow> rat" where
  "sqrt_round q =
     (if q \<le> 0 then 0
      else let e = ilog2 q div 2; u = pow2 (e - 52); x = q / (u * u);
               m = int (isqrt (nat \<lfloor>x\<rfloor>)); h = (of_int m + 1 / 2) * (of_int m + 1 / 2);
               m' = (if x < h then m else if h < x then m + 1
                     else if even m then m else m + 1)
           in of_int m' * u)"

text \<open>\<open>numpy.sqrt\<close> on a float: a negative argument gives \<open>nan\<close> (and a warning).\<close>

fun np_sqrt :: "double \<Rightarrow> double" where
  "np_sqrt (Fin q) = (if q < 0 then NaN else Fin (sqrt_round q))"
| "np_sqrt PInf = PInf"
| "np_sqrt NInf = NaN"
| "np_sqrt NaN = NaN"

text \<open>\<open>int(x)\<close> truncates towards zero and raises on \<open>nan\<close> and the infinities.\<close>

fun py_int :: "double \<Rightarrow> py_error + int" where
  "py_int (Fin q) = Inr (if 0 \<le> q then \<lfloor>q\<rfloor> else \<lceil>q\<rceil>)"
| "py_int NaN = Inl ValueError"
| "py_int _ = Inl OverflowError"

text \<open>\<open>n * x\<close> for an image dimension \<open>n\<close> and a numpy float \<open>x\<close>: the int becomes a float.\<close>

definition int_mul_float :: "nat \<Rightarrow> double \<Rightarrow> double" where
  "int_mul_float n x = float_mul (round_double (of_nat n)) x"

section \<open>image\_utils.resize\_to\_limit\<close>

text \<open>
  \<open>png_size image\<close> is the number of bytes the PNG encoder wrote to the buffer
  (\<open>temp_buffer.tell()\<close>), a parameter of the model.
\<close>

definition resize_factor :: "double \<Rightarrow> double \<Rightarrow> py_error + double" where
  "resize_factor max_size_mb current_size_mb =
     (case float_div max_size_mb current_size_mb of
        Inl e \<Rightarrow> Inl e
      | Inr q \<Rightarrow> Inr (float_mul (np_sqrt q) (float_lit (9 / 10))))"

definition resize_to_limit :: "(image \<Rightarrow> nat) \<Rightarrow> image \<Rightarrow> double \<Rightarrow> py_error + image" where
  "resize_to_limit png_size img max_size_mb =
     (case int_true_div (int (png_size img)) (1024 * 1024) of
        Inl e \<Rightarrow> Inl e
      | Inr current_size_mb \<Rightarrow>
          if float_lt max_size_mb current_size_mb then
            (case resize_factor max_size_mb current_size_mb of
               Inl e \<Rightarrow> Inl e
             | Inr factor \<Rightarrow>
                 (case py_int (int_mul_float (im_width img) factor) of
                    Inl e \<Rightarrow> Inl e
                  | Inr new_width \<Rightarrow>
                      (case py_int (int_mul_float (im_height img) factor) of
                         Inl e \<Rightarrow> Inl e
                       | Inr new_height \<Rightarrow>
                           Inr (pil_resize img
                                  (nat (max new_width 256), nat (max new_height 256))
                                  LANCZOS))))
          else Inr img)"



subsection \<open>Images as objects\<close>









section \<open>image\_utils.ensure\_rgb\<close>


section \<open>image\_utils.create\_error\_image\<close>










section \<open>Facts about the helpers\<close>

subsection \<open>Rounding\<close>

lemma pow2_pos: "0 < pow2 e"
  by (simp add: pow2_def)

lemma pow2_add: "pow2 (a + b) = pow2 a * pow2 b"
proof -
  have "pow2 e = 2 powi e" for e
    by (simp add: pow2_def power_int_def inverse_eq_divide power_one_over)
  then show ?thesis by (simp add: power_int_add)
qed

lemma pow2_mono: "a \<le> b \<Longrightarrow> pow2 a \<le> pow2 b"
proof -
  have "pow2 e = 2 powi e" for e
    by (simp add: pow2_def power_int_def inverse_eq_divide power_one_over)
  then show "a \<le> b \<Longrightarrow> pow2 a \<le> pow2 b" by (simp add: power_int_increasing)
qed

lemma pow2_nat: "0 \<le> e \<Longrightarrow> pow2 e = 2 ^ nat e"
  by (simp add: pow2_def)

lemma pow2_neg: "0 \<le> e \<Longrightarrow> pow2 (- e) = 1 / 2 ^ nat e"
  by (cases "e = 0") (simp_all add: pow2_def)

lemma ilog2_lower:
  assumes "q \<noteq> 0"
  shows "pow2 (ilog2 q) \<le> \<bar>q\<bar>"
proof (cases "1 \<le> \<bar>q\<bar>")
  case True
  define n where "n = \<lfloor>\<bar>q\<bar>\<rfloor>"
  have n: "0 < n" using True by (simp add: n_def)
  from bitlen_bounds [OF n] have b: "2 ^ nat (bitlen n - 1) \<le> n" by simp
  have k: "0 \<le> bitlen n - 1" using n bitlen_eq_zero_iff [of n] bitlen_nonneg [of n] by simp
  have "pow2 (bitlen n - 1) = of_int (2 ^ nat (bitlen n - 1))"
    using k by (simp add: pow2_nat)
  also have "\<dots> \<le> of_int n" using b by (simp only: of_int_le_iff)
  also have "\<dots> \<le> \<bar>q\<bar>" by (simp add: n_def)
  finally show ?thesis using True by (simp add: ilog2_def n_def)
next
  case False
  define x where "x = 1 / \<bar>q\<bar>"
  define n where "n = \<lfloor>x\<rfloor>"
  define k where "k = bitlen n - 1"
  have qpos: "0 < \<bar>q\<bar>" using assms by simp
  have x1: "1 < x" using False qpos by (simp add: x_def)
  have n: "0 < n" using x1 by (simp add: n_def)
  have k: "0 \<le> k" using n bitlen_eq_zero_iff [of n] bitlen_nonneg [of n] by (simp add: k_def)
  show ?thesis
  proof (cases "pow2 (- k) \<le> \<bar>q\<bar>")
    case True
    then show ?thesis using False by (simp add: ilog2_def Let_def x_def n_def k_def)
  next
    case nle: False
    from bitlen_bounds [OF n] have "n < 2 ^ nat (bitlen n)" by simp
    then have "n + 1 \<le> 2 ^ nat (k + 1)" by (simp add: k_def)
    then have "(of_int (n + 1) :: rat) \<le> of_int (2 ^ nat (k + 1))" by (simp only: of_int_le_iff)
    moreover have "x < of_int (n + 1)" unfolding n_def by linarith
    ultimately have xlt: "x < 2 ^ nat (k + 1)" by simp
    have "pow2 (- (k + 1)) = 1 / 2 ^ nat (k + 1)" using k pow2_neg [of "k + 1"] by linarith
    also have "\<dots> < 1 / x" using xlt x1 by (simp add: frac_less2)
    also have "\<dots> = \<bar>q\<bar>" by (simp add: x_def)
    finally have "pow2 (- (k + 1)) \<le> \<bar>q\<bar>" by simp
    moreover have "- (k + 1) = - k - 1" by simp
    ultimately have "pow2 (- k - 1) \<le> \<bar>q\<bar>" by simp
    then show ?thesis using False nle by (simp add: ilog2_def Let_def x_def n_def k_def)
  qed
qed

lemma round_half_even_near: "\<bar>of_int (round_half_even x) - x\<bar> \<le> 1 / 2"
  unfolding round_half_even_def Let_def
  by (auto simp: abs_if; linarith)


lemma round_rat_near:
  "\<bar>round_rat q - q\<bar> \<le> pow2 (max (ilog2 q) (- 1022) - 52) / 2"
proof (cases "q = 0")
  case True
  then show ?thesis using pow2_pos [of "max (ilog2 0) (- 1022) - 52"] by (simp add: round_rat_def)
next
  case False
  define u where "u = pow2 (max (ilog2 q) (- 1022) - 52)"
  have u: "0 < u" by (simp add: u_def pow2_pos)
  have "\<bar>of_int (round_half_even (q / u)) - q / u\<bar> \<le> 1 / 2"
    by (rule round_half_even_near)
  then have "\<bar>of_int (round_half_even (q / u)) - q / u\<bar> * u \<le> 1 / 2 * u"
    using u by (simp only: mult_le_cancel_right_pos)
  moreover have "\<bar>of_int (round_half_even (q / u)) - q / u\<bar> * u
      = \<bar>of_int (round_half_even (q / u)) * u - q\<bar>"
  proof -
    have "\<bar>of_int (round_half_even (q / u)) - q / u\<bar> * u
      = \<bar>(of_int (round_half_even (q / u)) - q / u) * u\<bar>"
      using u by (simp add: abs_mult)
    also have "(of_int (round_half_even (q / u)) - q / u) * u
      = of_int (round_half_even (q / u)) * u - q"
      using u by (simp add: field_simps)
    finally show ?thesis .
  qed
  ultimately show ?thesis using False by (simp add: round_rat_def Let_def u_def)
qed

lemma round_rat_error:
  "\<bar>round_rat q - q\<bar> \<le> \<bar>q\<bar> / 2 ^ 53 + 1 / 2 ^ 1075"
proof (cases "q = 0")
  case True
  then show ?thesis by (simp add: round_rat_def)
next
  case False
  let ?e = "max (ilog2 q) (- 1022)"
  have "pow2 (?e - 52) = pow2 ?e * pow2 (- 52)"
    using pow2_add [of ?e "- 52"] by simp
  also have "pow2 (- 52) = 1 / 2 ^ 52" by (simp add: pow2_def)
  finally have e: "pow2 (?e - 52) = pow2 ?e / 2 ^ 52" by simp
  have "pow2 ?e \<le> \<bar>q\<bar> + 1 / 2 ^ 1022"
  proof (cases "ilog2 q \<le> - 1022")
    case True
    then have "pow2 ?e = 1 / 2 ^ 1022" by (simp add: max_def pow2_def)
    then show ?thesis by simp
  next
    case False
    then have "pow2 ?e = pow2 (ilog2 q)" by (simp add: max_def)
    then show ?thesis using ilog2_lower [OF \<open>q \<noteq> 0\<close>] by simp
  qed
  then have "pow2 (?e - 52) / 2 \<le> (\<bar>q\<bar> + 1 / 2 ^ 1022) / 2 ^ 52 / 2"
    unfolding e by (simp add: divide_right_mono)
  also have "\<dots> = \<bar>q\<bar> / 2 ^ 53 + 1 / 2 ^ 1075"
    by (simp add: add_divide_distrib)
  finally show ?thesis using round_rat_near [of q] by linarith
qed

lemma pow2_strict_mono: "a < b \<Longrightarrow> pow2 a < pow2 b"
proof -
  have "pow2 e = 2 powi e" for e
    by (simp add: pow2_def power_int_def inverse_eq_divide power_one_over)
  then show "a < b \<Longrightarrow> pow2 a < pow2 b" by (simp add: power_int_strict_increasing)
qed

lemma ilog2_upper:
  assumes "q \<noteq> 0"
  shows "\<bar>q\<bar> < pow2 (ilog2 q + 1)"
proof (cases "1 \<le> \<bar>q\<bar>")
  case True
  define n where "n = \<lfloor>\<bar>q\<bar>\<rfloor>"
  have n: "0 < n" using True by (simp add: n_def)
  from bitlen_bounds [OF n] have "n < 2 ^ nat (bitlen n)" by simp
  then have "n + 1 \<le> 2 ^ nat (bitlen n)" by simp
  then have "(of_int (n + 1) :: rat) \<le> of_int (2 ^ nat (bitlen n))" by (simp only: of_int_le_iff)
  moreover have "\<bar>q\<bar> < of_int (n + 1)" unfolding n_def by linarith
  ultimately have "\<bar>q\<bar> < 2 ^ nat (bitlen n)" by simp
  also have "\<dots> = pow2 (bitlen n)" using bitlen_nonneg [of n] by (simp add: pow2_nat)
  finally show ?thesis using True by (simp add: ilog2_def n_def)
next
  case False
  define x where "x = 1 / \<bar>q\<bar>"
  define n where "n = \<lfloor>x\<rfloor>"
  define k where "k = bitlen n - 1"
  have qpos: "0 < \<bar>q\<bar>" using assms by simp
  have x1: "1 < x" using False qpos by (simp add: x_def)
  have n: "0 < n" using x1 by (simp add: n_def)
  have k: "0 \<le> k" using n bitlen_eq_zero_iff [of n] bitlen_nonneg [of n] by (simp add: k_def)
  from bitlen_bounds [OF n] have "2 ^ nat k \<le> n" by (simp add: k_def)
  then have "(of_int (2 ^ nat k) :: rat) \<le> of_int n" by (simp only: of_int_le_iff)
  then have "(2 ^ nat k :: rat) \<le> of_int n" by simp
  moreover have "of_int n \<le> x" by (simp add: n_def)
  ultimately have le: "2 ^ nat k \<le> x" by (rule order_trans)
  have "\<bar>q\<bar> = 1 / x" by (simp add: x_def)
  also have "\<dots> \<le> 1 / 2 ^ nat k" using le by (simp add: frac_le)
  also have "\<dots> = pow2 (- k)" using k by (simp add: pow2_neg)
  finally have up: "\<bar>q\<bar> \<le> pow2 (- k)" .
  show ?thesis
  proof (cases "pow2 (- k) \<le> \<bar>q\<bar>")
    case True
    have "\<bar>q\<bar> < pow2 (- k + 1)" using up pow2_strict_mono [of "- k" "- k + 1"] by simp
    then show ?thesis using False True by (simp add: ilog2_def Let_def x_def n_def k_def)
  next
    case nle: False
    then have "\<bar>q\<bar> < pow2 (- k - 1 + 1)" by simp
    then show ?thesis using False nle by (simp add: ilog2_def Let_def x_def n_def k_def)
  qed
qed

lemma ilog2_unique:
  assumes "pow2 e \<le> \<bar>q\<bar>" and "\<bar>q\<bar> < pow2 (e + 1)"
  shows "ilog2 q = e"
proof -
  have q: "q \<noteq> 0" using assms(1) pow2_pos [of e] by auto
  have "pow2 (ilog2 q) < pow2 (e + 1)" using ilog2_lower [OF q] assms(2) by simp
  then have a: "ilog2 q < e + 1" using pow2_mono [of "e + 1" "ilog2 q"] by (cases "ilog2 q < e + 1") auto
  have "pow2 e < pow2 (ilog2 q + 1)" using ilog2_upper [OF q] assms(1) by simp
  then have b: "e < ilog2 q + 1" using pow2_mono [of "ilog2 q + 1" e] by (cases "e < ilog2 q + 1") auto
  from a b show ?thesis by simp
qed

lemma round_half_even_eval:
  assumes "\<bar>x - of_int m\<bar> < 1 / 2"
  shows "round_half_even x = m"
proof -
  have "of_int m - 1 \<le> x" "x < of_int m + 1" using assms by linarith+
  then have "m - 1 \<le> \<lfloor>x\<rfloor>" "\<lfloor>x\<rfloor> < m + 1" by linarith+
  then have "\<lfloor>x\<rfloor> = m \<or> \<lfloor>x\<rfloor> = m - 1" by linarith
  then show ?thesis
  proof
    assume f: "\<lfloor>x\<rfloor> = m"
    have "x < of_int m + 1 / 2" using assms by linarith
    then have "x - of_int \<lfloor>x\<rfloor> < 1 / 2" unfolding f by linarith
    then show ?thesis using f by (simp add: round_half_even_def Let_def)
  next
    assume f: "\<lfloor>x\<rfloor> = m - 1"
    have "of_int \<lfloor>x\<rfloor> = (of_int m :: rat) - 1" unfolding f by simp
    moreover have "of_int m - 1 / 2 < x" using assms by linarith
    ultimately have "1 / 2 < x - of_int \<lfloor>x\<rfloor>" by linarith
    then show ?thesis using f by (simp add: round_half_even_def Let_def)
  qed
qed

lemma round_rat_eval:
  assumes "pow2 e \<le> \<bar>q\<bar>" and "\<bar>q\<bar> < pow2 (e + 1)" and "- 1022 \<le> e"
    and "\<bar>q / pow2 (e - 52) - of_int m\<bar> < 1 / 2"
  shows "round_rat q = of_int m * pow2 (e - 52)"
proof -
  have q: "q \<noteq> 0" using assms(1) pow2_pos [of e] by auto
  have "ilog2 q = e" using assms(1,2) by (rule ilog2_unique)
  then show ?thesis using q assms(3) round_half_even_eval [OF assms(4)]
    by (simp add: round_rat_def Let_def max_def)
qed

lemma round_one_tenth: "round_rat (1 / 10) = 3602879701896397 / 36028797018963968"
  using round_rat_eval [of "- 4" "1 / 10" 7205759403792794] by (simp add: pow2_def)

lemma round_double_not_NaN [simp]: "round_double q \<noteq> NaN"
  by (simp add: round_double_def Let_def)

lemma round_double_small:
  assumes "\<bar>q\<bar> \<le> 2 ^ 1000"
  shows "round_double q = Fin (round_rat q)"
proof -
  have "\<bar>round_rat q\<bar> \<le> \<bar>q\<bar> + \<bar>q\<bar> / 2 ^ 53 + 1 / 2 ^ 1075"
    using round_rat_error [of q] by linarith
  also have "\<dots> \<le> 2 ^ 1000 + 2 ^ 1000 + 1"
    using assms by (intro add_mono) (simp_all add: field_simps)
  also have "\<dots> \<le> max_double" by (simp add: max_double_def)
  finally have "\<bar>round_rat q\<bar> \<le> max_double" .
  then show ?thesis by (simp add: round_double_def Let_def abs_le_iff)
qed

lemma round_half_even_of_int [simp]: "round_half_even (of_int k) = k"
  by (simp add: round_half_even_def)

lemma ilog2_power2: "ilog2 (2 ^ n) = int n"
proof -
  have "\<lfloor>(2::rat) ^ n\<rfloor> = 2 ^ n"
    by (metis floor_of_int of_int_numeral of_int_power)
  moreover have "bitlen (1 * 2 ^ n) = bitlen 1 + int n" by (rule bitlen_pow2) simp
  moreover have "bitlen 1 = 1" by (subst compute_bitlen) simp
  ultimately show ?thesis by (simp add: ilog2_def)
qed

lemma round_rat_power2: "round_rat (2 ^ n) = 2 ^ n"
proof -
  let ?u = "pow2 (int n - 52)"
  have u: "?u * pow2 52 = 2 ^ n"
    using pow2_add [of "int n - 52" 52] by (simp add: pow2_nat)
  have "0 < ?u" by (rule pow2_pos)
  then have "2 ^ n / ?u = pow2 52" using u by (simp add: field_simps)
  also have "pow2 52 = of_int (2 ^ 52)" by (simp add: pow2_def)
  finally have q: "2 ^ n / ?u = of_int (2 ^ 52)" .
  have "round_rat (2 ^ n) = of_int (round_half_even (2 ^ n / ?u)) * ?u"
    by (simp add: round_rat_def ilog2_power2 Let_def max_def)
  also have "\<dots> = of_int (2 ^ 52) * ?u" unfolding q by (simp only: round_half_even_of_int)
  also have "\<dots> = 2 ^ n" using u by (simp add: pow2_def mult.commute)
  finally show ?thesis .
qed

lemma round_double_zero: "round_double 0 = Fin 0"
  by (simp add: round_double_def round_rat_def max_double_def)

subsection \<open>Price lookup\<close>



subsection \<open>Nearest aspect ratio\<close>

lemma min_by_snoc:
  "min_by key b (xs @ [x]) =
     (if float_lt (key x) (key (min_by key b xs)) then x else min_by key b xs)"
  by (induction xs arbitrary: b) simp_all

lemma float_lt_trans: "float_lt a b \<Longrightarrow> float_lt b c \<Longrightarrow> float_lt a c"
  by (cases a; cases b; cases c) simp_all

lemma float_lt_le_trans: "float_lt a b \<Longrightarrow> float_le b c \<Longrightarrow> float_lt a c"
  by (cases a; cases b; cases c) simp_all

lemma float_not_lt: "a \<noteq> NaN \<Longrightarrow> b \<noteq> NaN \<Longrightarrow> \<not> float_lt a b \<Longrightarrow> float_le b a"
  by (cases a; cases b) simp_all

lemma float_lt_imp_le: "float_lt a b \<Longrightarrow> float_le a b"
  by (cases a; cases b) simp_all

lemma float_le_not_lt: "float_le a b \<Longrightarrow> \<not> float_lt b a"
  by (cases a; cases b) simp_all

lemma min_by_spec:
  assumes "\<forall>y \<in> set (b # xs). key y \<noteq> NaN"
  shows "\<exists>pre post. b # xs = pre @ min_by key b xs # post
           \<and> (\<forall>y \<in> set pre. float_lt (key (min_by key b xs)) (key y))
           \<and> (\<forall>y \<in> set post. float_le (key (min_by key b xs)) (key y))"
  using assms
proof (induction xs rule: rev_induct)
  case Nil
  show ?case by (intro exI [of _ "[]"]) simp
next
  case (snoc x xs)
  let ?m = "min_by key b xs"
  from snoc obtain pre post where split: "b # xs = pre @ ?m # post"
    and pre: "\<forall>y \<in> set pre. float_lt (key ?m) (key y)"
    and post: "\<forall>y \<in> set post. float_le (key ?m) (key y)"
    by auto
  have m_in: "?m \<in> set (b # xs)" unfolding split by simp
  have nn: "key x \<noteq> NaN" "key ?m \<noteq> NaN" using snoc.prems m_in by auto
  show ?case
  proof (cases "float_lt (key x) (key ?m)")
    case True
    have "\<forall>y \<in> set (b # xs). float_lt (key x) (key y)"
    proof
      fix y assume "y \<in> set (b # xs)"
      then have "y \<in> set pre \<or> y = ?m \<or> y \<in> set post" unfolding split by auto
      then show "float_lt (key x) (key y)"
        using True pre post by (auto intro: float_lt_trans float_lt_le_trans)
    qed
    moreover have "b # xs @ [x] = (b # xs) @ x # []" by simp
    ultimately show ?thesis using True unfolding min_by_snoc
      by (intro exI [of _ "b # xs"] exI [of _ "[]"]) simp
  next
    case False
    then have "float_le (key ?m) (key x)" using nn by (simp add: float_not_lt)
    moreover have "b # xs @ [x] = pre @ ?m # (post @ [x])" using split by simp
    ultimately show ?thesis using False pre post unfolding min_by_snoc
      by (intro exI [of _ pre] exI [of _ "post @ [x]"]) auto
  qed
qed

lemma int_true_div_overflow: "int_true_div (2 ^ 1024) 1 = Inl OverflowError"
proof -
  have "max_double < 2 ^ 1024" by (simp add: max_double_def)
  then have "round_double (2 ^ 1024) = PInf"
    by (simp only: round_double_def round_rat_power2 Let_def if_True)
  moreover have "rat_of_int (2 ^ 1024) / rat_of_int 1 = 2 ^ 1024"
    by (simp only: of_int_power of_int_numeral of_int_1 div_by_1)
  ultimately have "round_double (rat_of_int (2 ^ 1024) / rat_of_int 1) = PInf"
    by (simp only:)
  then show ?thesis
    by (simp only: int_true_div_def double.case) simp
qed


lemma ratio_distance_not_NaN:
  "snd x \<noteq> NaN \<Longrightarrow> ratio_distance (Fin r) x \<noteq> NaN"
  by (cases "snd x") (simp_all add: ratio_distance_def round_double_def Let_def)

lemma aspect_ratios_not_NaN: "x \<in> set aspect_ratios \<Longrightarrow> snd x \<noteq> NaN"
  by (auto simp: aspect_ratios_def float_lit_def)

lemma py_min_unique:
  assumes split: "T = pre @ x # post"
    and nn: "\<forall>y \<in> set T. key y \<noteq> NaN"
    and far: "\<forall>y \<in> set pre \<union> set post. float_lt (key x) (key y)"
  shows "py_min key T = Inr x"
proof -
  have "T \<noteq> []" unfolding split by simp
  then obtain b xs where T: "T = b # xs" by (cases T) auto
  let ?m = "min_by key b xs"
  from min_by_spec [of b xs key] nn obtain pre' post'
    where s': "b # xs = pre' @ ?m # post'"
      and pre': "\<forall>y \<in> set pre'. float_lt (key ?m) (key y)"
      and post': "\<forall>y \<in> set post'. float_le (key ?m) (key y)"
    unfolding T by blast
  have "set T = set pre \<union> {x} \<union> set post" unfolding split by auto
  moreover have sT: "set T = set pre' \<union> {?m} \<union> set post'" unfolding T s' by auto
  ultimately have m: "?m = x \<or> ?m \<in> set pre \<union> set post" by blast
  have x: "x = ?m \<or> x \<in> set pre' \<or> x \<in> set post'" using sT split by auto
  have "?m = x"
  proof (rule ccontr)
    assume ne: "?m \<noteq> x"
    with m far have lt: "float_lt (key x) (key ?m)" by blast
    from ne x pre' post' have "float_le (key ?m) (key x)"
      by (auto intro: float_lt_imp_le)
    with lt show False by (simp add: float_le_not_lt)
  qed
  then show ?thesis by (simp add: py_min_def T)
qed

lemma round_double_far:
  assumes "1 / 10 \<le> \<bar>q - p\<bar>" and "\<bar>q\<bar> \<le> 4" and "\<bar>p\<bar> \<le> 4"
  shows "\<exists>k. ratio_distance (Fin (round_rat p)) (l, round_double q) = Fin k \<and> 9 / 100 \<le> k"
proof -
  define a where "a = round_rat q"
  define b where "b = round_rat p"
  have ea: "\<bar>a - q\<bar> \<le> \<bar>q\<bar> / 2 ^ 53 + 1 / 2 ^ 1075"
    unfolding a_def by (rule round_rat_error)
  have eb: "\<bar>b - p\<bar> \<le> \<bar>p\<bar> / 2 ^ 53 + 1 / 2 ^ 1075"
    unfolding b_def by (rule round_rat_error)
  have s: "(1::rat) / 2 ^ 1075 \<le> 1 / 2 ^ 53" by simp
  have qa: "\<bar>a - q\<bar> \<le> 1 / 1000" using ea assms(2) s by simp
  have pb: "\<bar>b - p\<bar> \<le> 1 / 1000" using eb assms(3) s by simp
  have d: "98 / 1000 \<le> \<bar>a - b\<bar>" "\<bar>a - b\<bar> \<le> 9" using qa pb assms by linarith+
  have "\<bar>q\<bar> \<le> 2 ^ 1000" using assms(2) by simp
  then have fq: "round_double q = Fin a" unfolding a_def by (rule round_double_small)
  have "\<bar>a - b\<bar> \<le> 2 ^ 1000" using d(2) by simp
  then have fd: "round_double (a - b) = Fin (round_rat (a - b))" by (rule round_double_small)
  have "\<bar>round_rat (a - b) - (a - b)\<bar> \<le> \<bar>a - b\<bar> / 2 ^ 53 + 1 / 2 ^ 1075"
    by (rule round_rat_error)
  then have "\<bar>round_rat (a - b) - (a - b)\<bar> \<le> 1 / 1000" using d(2) s by simp
  then have "9 / 100 \<le> \<bar>round_rat (a - b)\<bar>" using d(1) by linarith
  then show ?thesis using fd by (simp add: ratio_distance_def fq b_def [symmetric])
qed

lemma ratio_distance_far:
  assumes "1 / 10 \<le> \<bar>q - p\<bar>" and "\<bar>q\<bar> \<le> 4" and "\<bar>p\<bar> \<le> 4" and "k < 9 / 100"
  shows "float_lt (Fin k) (ratio_distance (Fin (round_rat p)) (l, round_double q))"
  using round_double_far [OF assms(1-3), of l] assms(4) by auto

lemma ratio_distance_self:
  "ratio_distance (Fin (round_rat p)) (l, Fin (round_rat p)) = Fin 0"
  by (simp add: ratio_distance_def round_double_zero)

lemma aspect_ratio_16_9: "calculate_aspect_ratio 1920 1080 = Inr ''16:9''"
proof -
  let ?r = "round_rat (16 / 9)"
  let ?key = "ratio_distance (Fin ?r)"
  have fin: "round_double (16 / 9) = Fin ?r" by (rule round_double_small) simp
  then have div: "int_true_div 1920 1080 = Inr (Fin ?r)" by (simp add: int_true_div_def)
  define pre where "pre = take 3 aspect_ratios"
  define post where "post = drop 4 aspect_ratios"
  have split: "aspect_ratios = pre @ (''16:9'', round_double (16 / 9)) # post"
    by (simp add: pre_def post_def aspect_ratios_def)
  have self: "?key (''16:9'', round_double (16 / 9)) = Fin 0"
    unfolding fin by (rule ratio_distance_self)
  have far: "\<forall>y \<in> set pre \<union> set post. float_lt (?key (''16:9'', round_double (16 / 9))) (?key y)"
    unfolding self
    by (simp add: pre_def post_def aspect_ratios_def float_lit_def ratio_distance_far)
  have nn: "\<forall>y \<in> set aspect_ratios. ?key y \<noteq> NaN"
    by (simp add: ratio_distance_not_NaN aspect_ratios_not_NaN)
  have "py_min ?key aspect_ratios = Inr (''16:9'', round_double (16 / 9))"
    using split nn far by (rule py_min_unique)
  then show ?thesis by (simp add: calculate_aspect_ratio_def div)
qed

lemma spec_5_12: "spec_closest_ratio 5 12 = ''1:3''"
  by (simp add: spec_closest_ratio_def exact_ratios_def)

lemma spec_1920_1080: "spec_closest_ratio 1920 1080 = ''16:9''"
  by (simp add: spec_closest_ratio_def exact_ratios_def)

lemma aspect_ratio_1_1: "calculate_aspect_ratio 100 100 = Inr ''1:1''"
proof -
  let ?r = "round_rat 1"
  let ?key = "ratio_distance (Fin ?r)"
  have fin: "round_double 1 = Fin ?r" by (rule round_double_small) simp
  then have div: "int_true_div 100 100 = Inr (Fin ?r)" by (simp add: int_true_div_def)
  define post where "post = drop 1 aspect_ratios"
  have split: "aspect_ratios = [] @ (''1:1'', round_double 1) # post"
    by (simp add: post_def aspect_ratios_def float_lit_def)
  have self: "?key (''1:1'', round_double 1) = Fin 0"
    unfolding fin by (rule ratio_distance_self)
  have far: "\<forall>y \<in> set [] \<union> set post. float_lt (?key (''1:1'', round_double 1)) (?key y)"
    unfolding self
    by (simp add: post_def aspect_ratios_def float_lit_def ratio_distance_far)
  have nn: "\<forall>y \<in> set aspect_ratios. ?key y \<noteq> NaN"
    by (simp add: ratio_distance_not_NaN aspect_ratios_not_NaN)
  have "py_min ?key aspect_ratios = Inr (''1:1'', round_double 1)"
    using split nn far by (rule py_min_unique)
  then show ?thesis by (simp add: calculate_aspect_ratio_def div)
qed

lemma round_5_12: "round_rat (5 / 12) = 7505999378950827 / 18014398509481984"
  using round_rat_eval [of "- 2" "5 / 12" 7505999378950827] by (simp add: pow2_def)

lemma round_1_3: "round_rat (1 / 3) = 6004799503160661 / 18014398509481984"
  using round_rat_eval [of "- 2" "1 / 3" 6004799503160661] by (simp add: pow2_def)

lemma round_1_2: "round_rat (1 / 2) = 1 / 2"
  using round_rat_eval [of "- 1" "1 / 2" 4503599627370496] by (simp add: pow2_def)

lemma round_diff_1_2:
  "round_rat (1 / 2 - 7505999378950827 / 18014398509481984)
     = 1501199875790165 / 18014398509481984"
  using round_rat_eval [of "- 4" "1 / 2 - 7505999378950827 / 18014398509481984" 6004799503160660]
  by (simp add: pow2_def)

lemma round_diff_1_3:
  "round_rat (6004799503160661 / 18014398509481984 - 7505999378950827 / 18014398509481984)
     = - (750599937895083 / 9007199254740992)"
  using round_rat_eval [of "- 4"
      "6004799503160661 / 18014398509481984 - 7505999378950827 / 18014398509481984"
      "- 6004799503160664"]
  by (simp add: pow2_def)

lemma aspect_ratio_5_12: "calculate_aspect_ratio 5 12 = Inr ''1:2''"
proof -
  let ?r = "round_rat (5 / 12)"
  let ?key = "ratio_distance (Fin ?r)"
  have fin: "round_double (5 / 12) = Fin ?r" by (rule round_double_small) simp
  then have div: "int_true_div 5 12 = Inr (Fin ?r)" by (simp add: int_true_div_def)
  define pre where "pre = take 14 aspect_ratios"
  have split: "aspect_ratios = pre @ (''1:2'', round_double (1 / 2)) # []"
    by (simp add: pre_def aspect_ratios_def float_lit_def)
  have half: "round_double (1 / 2) = Fin (1 / 2)"
    using round_double_small [of "1 / 2"] by (simp add: round_1_2)
  have third: "round_double (1 / 3) = Fin (6004799503160661 / 18014398509481984)"
    using round_double_small [of "1 / 3"] by (simp add: round_1_3)
  have d2: "round_double (1 / 2 - 7505999378950827 / 18014398509481984)
      = Fin (1501199875790165 / 18014398509481984)"
    using round_double_small [of "1 / 2 - 7505999378950827 / 18014398509481984"]
    by (simp only: round_diff_1_2) simp
  have d3: "round_double
      (6004799503160661 / 18014398509481984 - 7505999378950827 / 18014398509481984)
      = Fin (- (750599937895083 / 9007199254740992))"
    using round_double_small
      [of "6004799503160661 / 18014398509481984 - 7505999378950827 / 18014398509481984"]
    by (simp only: round_diff_1_3) simp
  have self: "?key (''1:2'', round_double (1 / 2)) = Fin (1501199875790165 / 18014398509481984)"
    unfolding half ratio_distance_def round_5_12 snd_conv float_sub.simps d2 by simp
  have k13: "?key (''1:3'', round_double (1 / 3)) = Fin (750599937895083 / 9007199254740992)"
    unfolding third ratio_distance_def round_5_12 snd_conv float_sub.simps d3 by simp
  have far: "\<forall>y \<in> set pre \<union> set []. float_lt (?key (''1:2'', round_double (1 / 2))) (?key y)"
    unfolding self
    by (simp add: pre_def aspect_ratios_def float_lit_def ratio_distance_far k13)
  have nn: "\<forall>y \<in> set aspect_ratios. ?key y \<noteq> NaN"
    by (simp add: ratio_distance_not_NaN aspect_ratios_not_NaN)
  have "py_min ?key aspect_ratios = Inr (''1:2'', round_double (1 / 2))"
    using split nn far by (rule py_min_unique)
  then show ?thesis by (simp add: calculate_aspect_ratio_def div)
qed

subsection \<open>Dimension checks\<close>

lemma str_nat_256: "str_nat 256 = ''256''"
  by (simp add: str_nat.simps)

lemma str_nat_2048: "str_nat 2048 = ''2048''"
  by (simp add: str_nat.simps)

lemma str_nat_4194304: "str_nat 4194304 = ''4194304''"
  by (simp add: str_nat.simps)

lemma validate_small:
  "width < 256 \<or> height < 256 \<Longrightarrow>
   validate_image_dimensions width height =
     (False, ''Image dimensions too small. Minimum dimension is 256px'')"
  by (simp add: validate_image_dimensions_def min_dim_def str_int_def str_nat_256)

lemma validate_large:
  "\<not> (width < 256 \<or> height < 256) \<Longrightarrow> width > 2048 \<or> height > 2048 \<Longrightarrow>
   validate_image_dimensions width height =
     (False, ''Image dimensions too large. Maximum dimension is 2048px'')"
  by (simp add: validate_image_dimensions_def min_dim_def max_dim_def str_int_def str_nat_2048)

lemma validate_pixels:
  "\<not> (width < 256 \<or> height < 256) \<Longrightarrow> \<not> (width > 2048 \<or> height > 2048) \<Longrightarrow>
   width * height > 4194304 \<Longrightarrow>
   validate_image_dimensions width height =
     (False, ''Image resolution too high. Maximum is 4194304 pixels'')"
  by (simp add: validate_image_dimensions_def min_dim_def max_dim_def max_pixels_def
      str_int_def str_nat_4194304)

lemma validate_ok:
  "\<not> (width < 256 \<or> height < 256) \<Longrightarrow> \<not> (width > 2048 \<or> height > 2048) \<Longrightarrow>
   \<not> width * height > 4194304 \<Longrightarrow>
   validate_image_dimensions width height = (True, ''Valid dimensions'')"
  by (simp add: validate_image_dimensions_def min_dim_def max_dim_def max_pixels_def)

subsection \<open>The API client\<close>

lemma str_nat_500: "str_nat 500 = ''500''"
  by (simp add: str_nat.simps)


lemma parse_api_error_object:
  "json_result resp = Inr (JObject kvs) \<Longrightarrow>
   parse_api_error dumps repr resp =
     (case map_of kvs ''message'' of
        Some v \<Rightarrow> v
      | None \<Rightarrow>
          (case map_of kvs ''error'' of
             None \<Rightarrow> JString (dumps (JObject kvs))
           | Some (JObject err) \<Rightarrow>
               (case map_of err ''message'' of
                  None \<Rightarrow> JString (repr (JObject err))
                | Some m \<Rightarrow> m)
           | Some err \<Rightarrow> JString (py_str repr err)))"
  by (simp add: parse_api_error_def parse_api_error_try_def
      split: option.splits json.splits bool.splits)

lemma parse_api_error_unparsable:
  "json_result resp = Inl err \<Longrightarrow> parse_api_error dumps repr resp = raw_text_or_status resp"
  by (simp add: parse_api_error_def parse_api_error_try_def)

lemma parse_api_error_not_object:
  "json_result resp = Inr body \<Longrightarrow> \<forall>kvs. body \<noteq> JObject kvs \<Longrightarrow>
   parse_api_error dumps repr resp =
     (if py_contains ''message'' body = Inr False \<and> py_contains ''error'' body = Inr False
      then JString (dumps body) else raw_text_or_status resp)"
  by (cases body)
    (auto simp: parse_api_error_def parse_api_error_try_def split: bool.splits)

lemma str_nat_5: "str_nat 5 = ''5''"
  by (simp add: str_nat.simps)

subsection \<open>Resizing\<close>




lemma isqrt_le: "isqrt n * isqrt n \<le> n"
proof (induction n rule: isqrt.induct)
  case (1 n)
  show ?case
  proof (cases "n < 2")
    case True
    then show ?thesis by (subst (1 2) isqrt.simps) (auto simp: less_2_cases_iff)
  next
    case False
    let ?r = "2 * isqrt (n div 4)"
    have "isqrt (n div 4) * isqrt (n div 4) \<le> n div 4" using "1.IH" False by simp
    then have r: "?r * ?r \<le> n" by simp
    show ?thesis using False r by (subst (1 2) isqrt.simps) (simp add: Let_def)
  qed
qed







lemma float_mul_NaN_right [simp]: "float_mul x NaN = NaN"
  by (cases x) simp_all


lemma round_rat_20: "round_rat 20 = 20"
  using round_rat_eval [of 4 20 5629499534213120] by (simp add: pow2_def)


lemma round_double_exact:
  "round_rat q = q \<Longrightarrow> \<bar>q\<bar> \<le> 2 ^ 1000 \<Longrightarrow> round_double q = Fin q"
  using round_double_small [of q] by simp


subsection \<open>Mode coercion\<close>






subsection \<open>Error image\<close>









subsection \<open>Concrete runs\<close>

text \<open>
  The model evaluated on inputs whose Python results are known: \<open>0.07 * 3\<close> is
  0.21000000000000002, one unit in the last place above the literal \<open>0.21\<close>; a 20 MB
  estimate against a limit of 10 gives the factor 0.6363961030678928, and 4000 by 3000
  becomes 2545 by 1909.
\<close>

lemma round_rat_7_100: "round_rat (7 / 100) = 1261007895663739 / 18014398509481984"
  using round_rat_eval [of "- 4" "7 / 100" 5044031582654956] by (simp add: pow2_def)

lemma round_rat_21_100: "round_rat (21 / 100) = 7566047373982433 / 36028797018963968"
  using round_rat_eval [of "- 3" "21 / 100" 7566047373982433] by (simp add: pow2_def)

lemma round_rat_3: "round_rat 3 = 3"
  using round_rat_eval [of 1 3 6755399441055744] by (simp add: pow2_def)

lemma round_rat_cost_3:
  "round_rat (3783023686991217 / 18014398509481984) = 3783023686991217 / 18014398509481984"
  using round_rat_eval [of "- 3" "3783023686991217 / 18014398509481984" 7566047373982434]
  by (simp add: pow2_def)

lemma calculate_cost_3_default:
  "calculate_cost 3 ''Default'' True = Inr (Fin (3783023686991217 / 18014398509481984))
   \<and> float_lit (21 / 100) = Fin (7566047373982433 / 36028797018963968)
   \<and> calculate_cost 3 ''Default'' True \<noteq> Inr (float_lit (21 / 100))"
proof -
  have p: "float_lit (7 / 100) = Fin (1261007895663739 / 18014398509481984)"
    using round_double_small [of "7 / 100"] by (simp add: float_lit_def round_rat_7_100)
  have n: "int_to_double 3 = Inr (Fin 3)"
    by (simp add: int_to_double_def round_double_exact round_rat_3)
  have m: "round_double (3783023686991217 / 18014398509481984)
      = Fin (3783023686991217 / 18014398509481984)"
    by (simp add: round_double_exact round_rat_cost_3)
  have c: "calculate_cost 3 ''Default'' True
      = Inr (Fin (3783023686991217 / 18014398509481984))"
    by (simp add: calculate_cost_def character_prices_def dict_get_def float_mul_int_def n p m)
  have l: "float_lit (21 / 100) = Fin (7566047373982433 / 36028797018963968)"
    using round_double_small [of "21 / 100"] by (simp add: float_lit_def round_rat_21_100)
  show ?thesis unfolding c l by simp
qed

lemma isqrt_gt: "n < (isqrt n + 1) * (isqrt n + 1)"
proof (induction n rule: isqrt.induct)
  case (1 n)
  show ?case
  proof (cases "n < 2")
    case True
    then show ?thesis by (subst (1 2) isqrt.simps) (auto simp: less_2_cases_iff)
  next
    case False
    define r where "r = isqrt (n div 4)"
    have "n div 4 < (r + 1) * (r + 1)" unfolding r_def using "1.IH" False by simp
    then have "n div 4 + 1 \<le> (r + 1) * (r + 1)" by simp
    then have "4 * (n div 4) + 4 \<le> 4 * ((r + 1) * (r + 1))" by simp
    moreover have "n < 4 * (n div 4) + 4" by presburger
    ultimately have up: "n < (2 * r + 2) * (2 * r + 2)" by (simp add: algebra_simps)
    have val: "isqrt n = (if (2 * r + 1) * (2 * r + 1) \<le> n then 2 * r + 1 else 2 * r)"
      using False by (subst isqrt.simps) (simp add: Let_def r_def)
    show ?thesis
    proof (cases "(2 * r + 1) * (2 * r + 1) \<le> n")
      case True
      then have "isqrt n = 2 * r + 1" using val by simp
      then show ?thesis using up by simp
    next
      case no: False
      then have "isqrt n = 2 * r" using val by simp
      then show ?thesis using no by simp
    qed
  qed
qed

lemma isqrt_unique:
  assumes "f * f \<le> n" and "n < (f + 1) * (f + 1)"
  shows "isqrt n = f"
proof (rule ccontr)
  assume ne: "isqrt n \<noteq> f"
  show False
  proof (cases "isqrt n < f")
    case True
    then have "isqrt n + 1 \<le> f" by simp
    from this this have "(isqrt n + 1) * (isqrt n + 1) \<le> f * f" by (rule mult_le_mono)
    with isqrt_gt [of n] assms(1) show False by simp
  next
    case False
    with ne have "f + 1 \<le> isqrt n" by simp
    from this this have "(f + 1) * (f + 1) \<le> isqrt n * isqrt n" by (rule mult_le_mono)
    with isqrt_le [of n] assms(2) show False by simp
  qed
qed

lemma sqrt_round_eval:
  fixes f :: nat
  assumes "pow2 e \<le> q" and "q < pow2 (e + 1)" and "e div 2 = k"
    and "x = q / (pow2 (k - 52) * pow2 (k - 52))"
    and "of_nat (f * f) \<le> x" and "x < of_nat ((f + 1) * (f + 1))"
    and "(of_nat f + 1 / 2) * (of_nat f + 1 / 2) < x"
  shows "sqrt_round q = (of_nat f + 1) * pow2 (k - 52)"
proof -
  have q: "0 < q" using assms(1) pow2_pos [of e] by simp
  have e: "ilog2 q = e" using assms(1,2) q by (intro ilog2_unique) simp_all
  have "rat_of_int (int (f * f)) \<le> x" using assms(5) by simp
  then have "int (f * f) \<le> \<lfloor>x\<rfloor>" by (simp only: le_floor_iff)
  moreover have "a \<le> nat k" if "int a \<le> k" for a k using that by linarith
  ultimately have lo: "f * f \<le> nat \<lfloor>x\<rfloor>" by blast
  have "x < rat_of_int (int ((f + 1) * (f + 1)))" using assms(6) by simp
  then have "\<lfloor>x\<rfloor> < int ((f + 1) * (f + 1))" by (simp only: floor_less_iff)
  moreover have "nat k < a" if "k < int a" "0 < a" for a k using that by linarith
  moreover have "0 < (f + 1) * (f + 1)" by simp
  ultimately have hi: "nat \<lfloor>x\<rfloor> < (f + 1) * (f + 1)" by blast
  have m: "isqrt (nat \<lfloor>x\<rfloor>) = f" using lo hi by (rule isqrt_unique)
  have "\<not> q \<le> 0" using q by simp
  then show ?thesis
    using assms(7)
    by (simp add: sqrt_round_def Let_def e assms(3) assms(4) [symmetric] m)
qed

lemma sqrt_round_half: "sqrt_round (1 / 2) = 6369051672525773 / 9007199254740992"
  using sqrt_round_eval [of "- 1" "1 / 2" "- 1" "2 ^ 105" 6369051672525772]
  by (simp add: pow2_def)


lemma round_rat_9_10: "round_rat (9 / 10) = 8106479329266893 / 9007199254740992"
  using round_rat_eval [of "- 1" "9 / 10" 8106479329266893] by (simp add: pow2_def)

lemma round_rat_factor:
  "round_rat (6369051672525773 / 9007199254740992 * (8106479329266893 / 9007199254740992))
     = 1433036626318299 / 2251799813685248"
  using round_rat_eval [of "- 1"
      "6369051672525773 / 9007199254740992 * (8106479329266893 / 9007199254740992)"
      5732146505273196]
  by (simp add: pow2_def)

lemma round_rat_4000: "round_rat 4000 = 4000"
  using round_rat_eval [of 11 4000 8796093022208000] by (simp add: pow2_def)

lemma round_rat_3000: "round_rat 3000 = 3000"
  using round_rat_eval [of 11 3000 6597069766656000] by (simp add: pow2_def)

lemma round_rat_new_width:
  "round_rat (4000 * (1433036626318299 / 2251799813685248))
     = 5597799321555855 / 2199023255552"
  using round_rat_eval [of 11 "4000 * (1433036626318299 / 2251799813685248)" 5597799321555855]
  by (simp add: pow2_def)

lemma round_rat_new_height:
  "round_rat (3000 * (1433036626318299 / 2251799813685248))
     = 8396698982333783 / 4398046511104"
  using round_rat_eval [of 10 "3000 * (1433036626318299 / 2251799813685248)" 8396698982333783]
  by (simp add: pow2_def)

lemma resize_factor_half:
  "resize_factor (Fin 10) (Fin 20) = Inr (Fin (1433036626318299 / 2251799813685248))"
proof -
  have q: "round_double (1 / 2) = Fin (1 / 2)"
    by (simp add: round_double_exact round_1_2)
  have n: "round_double (9 / 10) = Fin (8106479329266893 / 9007199254740992)"
    using round_double_small [of "9 / 10"] by (simp add: round_rat_9_10)
  have f: "round_double
      (6369051672525773 / 9007199254740992 * (8106479329266893 / 9007199254740992))
      = Fin (1433036626318299 / 2251799813685248)"
    using round_double_small
      [of "6369051672525773 / 9007199254740992 * (8106479329266893 / 9007199254740992)"]
    by (simp only: round_rat_factor) simp
  have "float_div (Fin 10) (Fin 20) = Inr (Fin (1 / 2))" using q by simp
  moreover have "np_sqrt (Fin (1 / 2)) = Fin (6369051672525773 / 9007199254740992)"
    by (simp add: sqrt_round_half)
  moreover have "float_mul (Fin (6369051672525773 / 9007199254740992)) (float_lit (9 / 10))
      = Fin (1433036626318299 / 2251799813685248)"
    unfolding float_lit_def n float_mul.simps by (rule f)
  ultimately show ?thesis by (simp only: resize_factor_def sum.case)
qed

lemma resize_20mb:
  "resize_to_limit (\<lambda>img. 20971520)
     \<lparr>im_mode = ''RGB'', im_width = 4000, im_height = 3000, im_data = Source 0\<rparr> (Fin 10)
   = Inr \<lparr>im_mode = ''RGB'', im_width = 2545, im_height = 1909,
          im_data = Resized (Source 0) (2545, 1909) LANCZOS\<rparr>"
proof -
  let ?f = "1433036626318299 / 2251799813685248 :: rat"
  have cur: "int_true_div 20971520 1048576 = Inr (Fin 20)"
    by (simp add: int_true_div_def round_double_exact round_rat_20)
  have w0: "round_double 4000 = Fin 4000" by (simp add: round_double_exact round_rat_4000)
  have h0: "round_double 3000 = Fin 3000" by (simp add: round_double_exact round_rat_3000)
  have w1: "round_double (4000 * ?f) = Fin (5597799321555855 / 2199023255552)"
    using round_double_small [of "4000 * ?f"] by (simp only: round_rat_new_width) simp
  have h1: "round_double (3000 * ?f) = Fin (8396698982333783 / 4398046511104)"
    using round_double_small [of "3000 * ?f"] by (simp only: round_rat_new_height) simp
  have "int_mul_float 4000 (Fin ?f) = Fin (5597799321555855 / 2199023255552)"
    by (simp only: int_mul_float_def of_nat_numeral w0 float_mul.simps w1)
  then have w: "py_int (int_mul_float 4000 (Fin ?f)) = Inr 2545" by (simp add: floor_eq_iff)
  have "int_mul_float 3000 (Fin ?f) = Fin (8396698982333783 / 4398046511104)"
    by (simp only: int_mul_float_def of_nat_numeral h0 float_mul.simps h1)
  then have h: "py_int (int_mul_float 3000 (Fin ?f)) = Inr 1909" by (simp add: floor_eq_iff)
  show ?thesis
    by (simp add: resize_to_limit_def cur resize_factor_half w h pil_resize_def)
qed

section \<open>Claims\<close>

text \<open>
  C4. For every width and height, \<open>validate_image_dimensions\<close> answers \<open>False\<close> with one of
  its three descriptive messages when a dimension is below 256, when a dimension is above
  2048, or when the pixel count is above 4194304, and \<open>(True, ''Valid dimensions'')\<close>
  otherwise. The function is total: its result is always a pair, no input raises.
  (100, 100) is invalid, (2048, 2048) is valid, (2049, 2049) is invalid.
\<close>

theorem C4_validate_image_dimensions:
  "(width < 256 \<or> height < 256 \<or> width > 2048 \<or> height > 2048 \<or> width * height > 4194304
      \<longrightarrow> fst (validate_image_dimensions width height) = False
        \<and> snd (validate_image_dimensions width height) \<in>
            {''Image dimensions too small. Minimum dimension is 256px'',
             ''Image dimensions too large. Maximum dimension is 2048px'',
             ''Image resolution too high. Maximum is 4194304 pixels''})
   \<and> (\<not> (width < 256 \<or> height < 256 \<or> width > 2048 \<or> height > 2048
          \<or> width * height > 4194304)
      \<longrightarrow> validate_image_dimensions width height = (True, ''Valid dimensions''))
   \<and> fst (validate_image_dimensions 100 100) = False
   \<and> fst (validate_image_dimensions 2048 2048) = True
   \<and> fst (validate_image_dimensions 2049 2049) = False"
proof -
  have bad: "fst (validate_image_dimensions w h) = False
        \<and> snd (validate_image_dimensions w h) \<in>
            {''Image dimensions too small. Minimum dimension is 256px'',
             ''Image dimensions too large. Maximum dimension is 2048px'',
             ''Image resolution too high. Maximum is 4194304 pixels''}"
    if "w < 256 \<or> h < 256 \<or> w > 2048 \<or> h > 2048 \<or> w * h > 4194304" for w h
  proof (cases "w < 256 \<or> h < 256")
    case True
    then show ?thesis by (simp add: validate_small)
  next
    case small: False
    show ?thesis
    proof (cases "w > 2048 \<or> h > 2048")
      case True
      then show ?thesis by (simp add: validate_large [OF small])
    next
      case False
      with small that have "w * h > 4194304" by blast
      then show ?thesis by (simp add: validate_pixels [OF small False])
    qed
  qed
  have good: "validate_image_dimensions w h = (True, ''Valid dimensions'')"
    if "\<not> (w < 256 \<or> h < 256 \<or> w > 2048 \<or> h > 2048 \<or> w * h > 4194304)" for w h
    using that by (intro validate_ok) blast+
  have e1: "fst (validate_image_dimensions 100 100) = False"
    using bad [of 100 100] by simp
  have e2: "fst (validate_image_dimensions 2048 2048) = True"
    using good [of 2048 2048] by simp
  have e3: "fst (validate_image_dimensions 2049 2049) = False"
    using bad [of 2049 2049] by simp
  from bad [of width height] good [of width height] e1 e2 e3 show ?thesis by blast
qed

theorem C4_validate_image_dimensions_witness:
  "fst (validate_image_dimensions 300 5000) = False
   \<and> validate_image_dimensions 1024 768 = (True, ''Valid dimensions'')"
  using C4_validate_image_dimensions [of 300 5000] C4_validate_image_dimensions [of 1024 768]
  by simp





text \<open>
  C9. With height 0 the function raises \<open>ZeroDivisionError\<close> for every width, before the
  table is consulted; so whenever it returns a label the height was not 0.
\<close>

theorem C9_aspect_ratio_zero_height:
  "calculate_aspect_ratio width 0 = Inl ZeroDivisionError
   \<and> (calculate_aspect_ratio width height = Inr label \<longrightarrow> height \<noteq> 0)"
proof -
  have z: "calculate_aspect_ratio w 0 = Inl ZeroDivisionError" for w
    by (simp add: calculate_aspect_ratio_def int_true_div_def)
  then have "height \<noteq> 0" if "calculate_aspect_ratio width height = Inr label"
    using that by (cases "height = 0") auto
  with z show ?thesis by blast
qed

theorem C9_aspect_ratio_zero_height_witness:
  "calculate_aspect_ratio 100 0 = Inl ZeroDivisionError
   \<and> calculate_aspect_ratio 100 100 = Inr ''1:1'' \<and> (100::int) \<noteq> 0"
  using C9_aspect_ratio_zero_height [of 100 100 "''1:1''"] aspect_ratio_1_1 by simp

text \<open>
  C5, as stated, read in exact arithmetic and for every width: the label returned is that
  of the first table entry with the smallest \<open>\<bar>value - width / height\<bar>\<close>. Two inputs
  refute it. For 5 by 12 the exact distances to 1:3 and to 1:2 are both 1/12, so the
  earlier entry 1:3 should win, but the distances the code computes in double precision
  are 0.08333333333333337 and 0.08333333333333331 and it returns 1:2. For width
  \<open>2 ^ 1024\<close> and height 1 the quotient is too large for a float and the division raises
  \<open>OverflowError\<close>, so no label is returned although the height is positive.
\<close>

theorem C5_exact_reading_counterexample:
  "spec_closest_ratio 5 12 = ''1:3''
   \<and> calculate_aspect_ratio 5 12 = Inr ''1:2''
   \<and> calculate_aspect_ratio (2 ^ 1024) 1 = Inl OverflowError"
proof -
  have "calculate_aspect_ratio (2 ^ 1024) 1 = Inl OverflowError"
    by (simp only: calculate_aspect_ratio_def int_true_div_overflow sum.case)
  then show ?thesis using spec_5_12 aspect_ratio_5_12 by simp
qed

text \<open>
  C5, amended. For every width and every non-zero height whose quotient rounds to a finite
  double \<open>Fin r\<close> (which holds whenever \<open>\<bar>width\<bar> \<le> 2 ^ 1000 * \<bar>height\<bar>\<close>, by
  \<open>int_true_div_finite\<close>), the function returns the label of a table entry such that,
  with distances computed as the code computes them (\<open>abs(value - ratio)\<close>, each operation
  rounded to double), every earlier entry of the 15-entry table is strictly farther and
  every later entry is at least as far: the smallest computed distance, the first such
  entry winning ties. In particular 1920 by 1080 gives 16:9 and 100 by 100 gives 1:1.
\<close>

theorem C5_closest_aspect_ratio:
  assumes "height \<noteq> 0"
    and "round_double (of_int width / of_int height) = Fin r"
  shows "(\<exists>label v pre post.
            calculate_aspect_ratio width height = Inr label
          \<and> aspect_ratios = pre @ (label, v) # post
          \<and> length aspect_ratios = 15
          \<and> (\<forall>x \<in> set pre.
                float_lt (ratio_distance (Fin r) (label, v)) (ratio_distance (Fin r) x))
          \<and> (\<forall>x \<in> set post.
                float_le (ratio_distance (Fin r) (label, v)) (ratio_distance (Fin r) x)))
       \<and> calculate_aspect_ratio 1920 1080 = Inr ''16:9''
       \<and> calculate_aspect_ratio 100 100 = Inr ''1:1''"
proof -
  let ?key = "ratio_distance (Fin r)"
  have div: "int_true_div width height = Inr (Fin r)"
    using assms by (simp add: int_true_div_def)
  obtain b xs where T: "aspect_ratios = b # xs" by (simp add: aspect_ratios_def)
  let ?m = "min_by ?key b xs"
  have nn: "\<forall>y \<in> set (b # xs). ?key y \<noteq> NaN"
    unfolding T [symmetric] by (simp add: ratio_distance_not_NaN aspect_ratios_not_NaN)
  from min_by_spec [OF nn] obtain pre post
    where split: "b # xs = pre @ ?m # post"
      and pre: "\<forall>y \<in> set pre. float_lt (?key ?m) (?key y)"
      and post: "\<forall>y \<in> set post. float_le (?key ?m) (?key y)"
    by blast
  have res: "calculate_aspect_ratio width height = Inr (fst ?m)"
    by (simp add: calculate_aspect_ratio_def div py_min_def T)
  have len: "length aspect_ratios = 15" by (simp add: aspect_ratios_def)
  have "aspect_ratios = pre @ (fst ?m, snd ?m) # post" using split T by simp
  with res len pre post have
    "\<exists>label v pre post.
        calculate_aspect_ratio width height = Inr label
      \<and> aspect_ratios = pre @ (label, v) # post
      \<and> length aspect_ratios = 15
      \<and> (\<forall>x \<in> set pre. float_lt (?key (label, v)) (?key x))
      \<and> (\<forall>x \<in> set post. float_le (?key (label, v)) (?key x))"
    by (intro exI [of _ "fst ?m"] exI [of _ "snd ?m"] exI [of _ pre] exI [of _ post]) simp
  then show ?thesis using aspect_ratio_16_9 aspect_ratio_1_1 by blast
qed

theorem C5_closest_aspect_ratio_witness:
  "(1080::int) \<noteq> 0
   \<and> round_double (of_int 1920 / of_int 1080) = Fin (round_rat (16 / 9))
   \<and> (\<exists>label v pre post.
          calculate_aspect_ratio 1920 1080 = Inr label
        \<and> aspect_ratios = pre @ (label, v) # post)"
proof -
  have h: "(1080::int) \<noteq> 0" by simp
  have "round_double (16 / 9) = Fin (round_rat (16 / 9))" by (rule round_double_small) simp
  then have q: "round_double (of_int 1920 / of_int 1080) = Fin (round_rat (16 / 9))" by simp
  from C5_closest_aspect_ratio [OF h q] h q show ?thesis by blast
qed



text \<open>
  C3, as stated for every response: after the \<open>message\<close> field, and the \<open>error\<close> field
  when it is a string or an object with a \<open>message\<close>, what remains is the serialization
  of the whole body. The body \<open>{"error": {"code": 5}}\<close> refutes it: the code returns
  \<open>str\<close> of the error value alone, the text \<open>{'code': 5}\<close>, and not \<open>json.dumps\<close> of
  the body, the text \<open>{"error": {"code": 5}}\<close>.
\<close>

theorem C3_error_without_message_counterexample:
  "parse_api_error (json_dumps (\<lambda>d. [])) (py_repr (\<lambda>d. []))
      \<lparr>status_code = 400,
       body_text = json_dumps (\<lambda>d. []) (JObject [(''error'', JObject [(''code'', JInt 5)])]),
       json_result = Inr (JObject [(''error'', JObject [(''code'', JInt 5)])])\<rparr>
     = JString (''{'' @ [CHR 0x27] @ ''code'' @ [CHR 0x27] @ '': 5}'')
   \<and> json_dumps (\<lambda>d. []) (JObject [(''error'', JObject [(''code'', JInt 5)])])
     = ''{'' @ [CHR 0x22] @ ''error'' @ [CHR 0x22] @ '': {''
         @ [CHR 0x22] @ ''code'' @ [CHR 0x22] @ '': 5}}''
   \<and> parse_api_error (json_dumps (\<lambda>d. [])) (py_repr (\<lambda>d. []))
      \<lparr>status_code = 400,
       body_text = json_dumps (\<lambda>d. []) (JObject [(''error'', JObject [(''code'', JInt 5)])]),
       json_result = Inr (JObject [(''error'', JObject [(''code'', JInt 5)])])\<rparr>
     \<noteq> JString (json_dumps (\<lambda>d. []) (JObject [(''error'', JObject [(''code'', JInt 5)])]))"
  by (simp add: parse_api_error_object str_int_def str_nat_5)

text \<open>
  C3, amended. For every response, with \<open>json.dumps\<close> and \<open>repr\<close> as parameters. When the
  JSON body is an object: the value under \<open>message\<close> when that key is present; else, when
  \<open>error\<close> is present, the string itself when its value is a string, the inner \<open>message\<close>
  when its value is an object with that key, and \<open>str\<close> of the error value in every other
  case; else, with neither key, \<open>json.dumps\<close> of the whole body. When the JSON body is
  not an object: \<open>json.dumps\<close> of the body when it is a list or a string in which the
  \<open>in\<close> test finds neither \<open>message\<close> nor \<open>error\<close>, and otherwise what an unparsable
  body gives. When \<open>response.json()\<close> raises: the first 500 characters of the text, or
  \<open>HTTP\<close> followed by the status code when the text is empty. The four examples follow.
\<close>

theorem C3_parse_api_error:
  "(json_result resp = Inr (JObject kvs) \<and> map_of kvs ''message'' = Some v
      \<longrightarrow> parse_api_error dumps repr resp = v)
   \<and> (json_result resp = Inr (JObject kvs) \<and> map_of kvs ''message'' = None
        \<and> map_of kvs ''error'' = Some (JString s)
      \<longrightarrow> parse_api_error dumps repr resp = JString s)
   \<and> (json_result resp = Inr (JObject kvs) \<and> map_of kvs ''message'' = None
        \<and> map_of kvs ''error'' = Some (JObject inner) \<and> map_of inner ''message'' = Some m
      \<longrightarrow> parse_api_error dumps repr resp = m)
   \<and> (json_result resp = Inr (JObject kvs) \<and> map_of kvs ''message'' = None
        \<and> map_of kvs ''error'' = Some (JObject inner) \<and> map_of inner ''message'' = None
      \<longrightarrow> parse_api_error dumps repr resp = JString (repr (JObject inner)))
   \<and> (json_result resp = Inr (JObject kvs) \<and> map_of kvs ''message'' = None
        \<and> map_of kvs ''error'' = Some other
        \<and> (\<forall>t. other \<noteq> JString t) \<and> (\<forall>i. other \<noteq> JObject i)
      \<longrightarrow> parse_api_error dumps repr resp = JString (repr other))
   \<and> (json_result resp = Inr (JObject kvs) \<and> map_of kvs ''message'' = None
        \<and> map_of kvs ''error'' = None
      \<longrightarrow> parse_api_error dumps repr resp = JString (dumps (JObject kvs)))
   \<and> (json_result resp = Inr body \<and> (\<forall>items. body \<noteq> JObject items)
        \<and> py_contains ''message'' body = Inr False \<and> py_contains ''error'' body = Inr False
      \<longrightarrow> parse_api_error dumps repr resp = JString (dumps body))
   \<and> (json_result resp = Inr body \<and> (\<forall>items. body \<noteq> JObject items)
        \<and> \<not> (py_contains ''message'' body = Inr False \<and> py_contains ''error'' body = Inr False)
      \<longrightarrow> parse_api_error dumps repr resp = raw_text_or_status resp)
   \<and> (json_result resp = Inl err
      \<longrightarrow> parse_api_error dumps repr resp = raw_text_or_status resp)
   \<and> (body_text resp \<noteq> []
      \<longrightarrow> raw_text_or_status resp = JString (take 500 (body_text resp)))
   \<and> (body_text resp = []
      \<longrightarrow> raw_text_or_status resp = JString (''HTTP '' @ str_int (status_code resp)))
   \<and> parse_api_error dumps repr
        \<lparr>status_code = code, body_text = txt,
         json_result = Inr (JObject [(''message'', JString ''bad'')])\<rparr> = JString ''bad''
   \<and> parse_api_error dumps repr
        \<lparr>status_code = code, body_text = txt,
         json_result = Inr (JObject [(''error'', JObject [(''message'', JString ''x'')])])\<rparr>
      = JString ''x''
   \<and> parse_api_error dumps repr
        \<lparr>status_code = code, body_text = txt,
         json_result = Inr (JObject [(''error'', JString ''y'')])\<rparr> = JString ''y''
   \<and> parse_api_error dumps repr
        \<lparr>status_code = 500, body_text = [], json_result = Inl err\<rparr> = JString ''HTTP 500''"
proof -
  have obj: "(json_result resp = Inr (JObject kvs) \<and> map_of kvs ''message'' = Some v
      \<longrightarrow> parse_api_error dumps repr resp = v)"
    by (simp add: parse_api_error_object)
  have err_str: "(json_result resp = Inr (JObject kvs) \<and> map_of kvs ''message'' = None
      \<and> map_of kvs ''error'' = Some (JString s)
      \<longrightarrow> parse_api_error dumps repr resp = JString s)"
    by (simp add: parse_api_error_object)
  have err_obj: "(json_result resp = Inr (JObject kvs) \<and> map_of kvs ''message'' = None
      \<and> map_of kvs ''error'' = Some (JObject inner) \<and> map_of inner ''message'' = Some m
      \<longrightarrow> parse_api_error dumps repr resp = m)"
    by (simp add: parse_api_error_object)
  have err_obj_none: "(json_result resp = Inr (JObject kvs) \<and> map_of kvs ''message'' = None
      \<and> map_of kvs ''error'' = Some (JObject inner) \<and> map_of inner ''message'' = None
      \<longrightarrow> parse_api_error dumps repr resp = JString (repr (JObject inner)))"
    by (simp add: parse_api_error_object)
  have err_other: "(json_result resp = Inr (JObject kvs) \<and> map_of kvs ''message'' = None
      \<and> map_of kvs ''error'' = Some other
      \<and> (\<forall>t. other \<noteq> JString t) \<and> (\<forall>i. other \<noteq> JObject i)
      \<longrightarrow> parse_api_error dumps repr resp = JString (repr other))"
    by (cases other) (simp_all add: parse_api_error_object)
  have whole: "(json_result resp = Inr (JObject kvs) \<and> map_of kvs ''message'' = None
      \<and> map_of kvs ''error'' = None
      \<longrightarrow> parse_api_error dumps repr resp = JString (dumps (JObject kvs)))"
    by (simp add: parse_api_error_object)
  have plain: "(json_result resp = Inr body \<and> (\<forall>items. body \<noteq> JObject items)
      \<and> py_contains ''message'' body = Inr False \<and> py_contains ''error'' body = Inr False
      \<longrightarrow> parse_api_error dumps repr resp = JString (dumps body))"
    by (simp add: parse_api_error_not_object)
  have odd: "(json_result resp = Inr body \<and> (\<forall>items. body \<noteq> JObject items)
      \<and> \<not> (py_contains ''message'' body = Inr False \<and> py_contains ''error'' body = Inr False)
      \<longrightarrow> parse_api_error dumps repr resp = raw_text_or_status resp)"
    using parse_api_error_not_object [of resp body dumps repr] by auto
  have raw: "(json_result resp = Inl err
      \<longrightarrow> parse_api_error dumps repr resp = raw_text_or_status resp)"
    by (simp add: parse_api_error_unparsable)
  have head: "(body_text resp \<noteq> []
      \<longrightarrow> raw_text_or_status resp = JString (take 500 (body_text resp)))"
    by (simp add: raw_text_or_status_def)
  have http: "(body_text resp = []
      \<longrightarrow> raw_text_or_status resp = JString (''HTTP '' @ str_int (status_code resp)))"
    by (simp add: raw_text_or_status_def)
  have e1: "parse_api_error dumps repr
      \<lparr>status_code = code, body_text = txt,
      json_result = Inr (JObject [(''message'', JString ''bad'')])\<rparr> = JString ''bad''"
    by (simp add: parse_api_error_object)
  have e2: "parse_api_error dumps repr
      \<lparr>status_code = code, body_text = txt,
      json_result = Inr (JObject [(''error'', JObject [(''message'', JString ''x'')])])\<rparr>
      = JString ''x''"
    by (simp add: parse_api_error_object)
  have e3: "parse_api_error dumps repr
      \<lparr>status_code = code, body_text = txt,
      json_result = Inr (JObject [(''error'', JString ''y'')])\<rparr> = JString ''y''"
    by (simp add: parse_api_error_object)
  have e4: "parse_api_error dumps repr
      \<lparr>status_code = 500, body_text = [], json_result = Inl err\<rparr> = JString ''HTTP 500''"
    by (simp add: parse_api_error_unparsable raw_text_or_status_def str_int_def str_nat_500)
  show ?thesis
    by (intro conjI)
      (fact obj, fact err_str, fact err_obj, fact err_obj_none, fact err_other, fact whole,
       fact plain, fact odd, fact raw, fact head, fact http, fact e1, fact e2, fact e3, fact e4)
qed

theorem C3_parse_api_error_witness:
  "parse_api_error (\<lambda>j. ''dumped'') (\<lambda>j. ''repr'')
      \<lparr>status_code = 400, body_text = ''raw'',
       json_result = Inr (JObject [(''code'', JInt 7), (''message'', JString ''bad'')])\<rparr>
     = JString ''bad''
   \<and> parse_api_error (\<lambda>j. ''dumped'') (\<lambda>j. ''repr'')
      \<lparr>status_code = 400, body_text = ''raw'',
       json_result = Inr (JObject [(''error'', JString ''y'')])\<rparr>
     = JString ''y''
   \<and> parse_api_error (\<lambda>j. ''dumped'') (\<lambda>j. ''repr'')
      \<lparr>status_code = 400, body_text = ''raw'',
       json_result = Inr (JObject [(''error'', JObject [(''message'', JInt 3)])])\<rparr>
     = JInt 3
   \<and> parse_api_error (\<lambda>j. ''dumped'') (\<lambda>j. ''repr'')
      \<lparr>status_code = 400, body_text = ''raw'',
       json_result = Inr (JObject [(''error'', JObject [(''code'', JInt 5)])])\<rparr>
     = JString ''repr''
   \<and> parse_api_error (\<lambda>j. ''dumped'') (\<lambda>j. ''repr'')
      \<lparr>status_code = 400, body_text = ''raw'',
       json_result = Inr (JObject [(''error'', JInt 5)])\<rparr>
     = JString ''repr''
   \<and> parse_api_error (\<lambda>j. ''dumped'') (\<lambda>j. ''repr'')
      \<lparr>status_code = 400, body_text = ''raw'',
       json_result = Inr (JObject [(''detail'', JString ''nope'')])\<rparr>
     = JString ''dumped''
   \<and> parse_api_error (\<lambda>j. ''dumped'') (\<lambda>j. ''repr'')
      \<lparr>status_code = 400, body_text = ''raw'', json_result = Inr (JArray [JInt 1])\<rparr>
     = JString ''dumped''
   \<and> parse_api_error (\<lambda>j. ''dumped'') (\<lambda>j. ''repr'')
      \<lparr>status_code = 400, body_text = ''raw'', json_result = Inr (JInt 5)\<rparr>
     = JString ''raw''
   \<and> parse_api_error (\<lambda>j. ''dumped'') (\<lambda>j. ''repr'')
      \<lparr>status_code = 503, body_text = ''Service Unavailable'', json_result = Inl ValueError\<rparr>
     = JString ''Service Unavailable''
   \<and> parse_api_error (\<lambda>j. ''dumped'') (\<lambda>j. ''repr'')
      \<lparr>status_code = 404, body_text = [], json_result = Inl ValueError\<rparr>
     = JString (''HTTP '' @ str_int 404)"
proof -
  let ?d = "\<lambda>j::json. ''dumped''"
  let ?r = "\<lambda>j::json. ''repr''"
  let ?resp = "\<lambda>c t j. \<lparr>status_code = c, body_text = t, json_result = j\<rparr>"
  let ?ob = "\<lambda>kvs. ?resp 400 ''raw'' (Inr (JObject kvs))"
  note t = C3_parse_api_error [where dumps = ?d and repr = ?r]
  have a1: "parse_api_error ?d ?r (?ob [(''code'', JInt 7), (''message'', JString ''bad'')])
      = JString ''bad''"
    using t [where resp = "?ob [(''code'', JInt 7), (''message'', JString ''bad'')]"
        and kvs = "[(''code'', JInt 7), (''message'', JString ''bad'')]"
        and v = "JString ''bad''"]
    by simp
  have a2: "parse_api_error ?d ?r (?ob [(''error'', JString ''y'')]) = JString ''y''"
    using t [where resp = "?ob [(''error'', JString ''y'')]"
        and kvs = "[(''error'', JString ''y'')]" and s = "''y''"]
    by simp
  have a3: "parse_api_error ?d ?r (?ob [(''error'', JObject [(''message'', JInt 3)])]) = JInt 3"
    using t [where resp = "?ob [(''error'', JObject [(''message'', JInt 3)])]"
        and kvs = "[(''error'', JObject [(''message'', JInt 3)])]"
        and inner = "[(''message'', JInt 3)]" and m = "JInt 3"]
    by simp
  have a4: "parse_api_error ?d ?r (?ob [(''error'', JObject [(''code'', JInt 5)])])
      = JString ''repr''"
    using t [where resp = "?ob [(''error'', JObject [(''code'', JInt 5)])]"
        and kvs = "[(''error'', JObject [(''code'', JInt 5)])]"
        and inner = "[(''code'', JInt 5)]"]
    by simp
  have a5: "parse_api_error ?d ?r (?ob [(''error'', JInt 5)]) = JString ''repr''"
    using t [where resp = "?ob [(''error'', JInt 5)]"
        and kvs = "[(''error'', JInt 5)]" and other = "JInt 5"]
    by simp
  have a6: "parse_api_error ?d ?r (?ob [(''detail'', JString ''nope'')]) = JString ''dumped''"
    using t [where resp = "?ob [(''detail'', JString ''nope'')]"
        and kvs = "[(''detail'', JString ''nope'')]"]
    by simp
  have a7: "parse_api_error ?d ?r (?resp 400 ''raw'' (Inr (JArray [JInt 1]))) = JString ''dumped''"
    using t [where resp = "?resp 400 ''raw'' (Inr (JArray [JInt 1]))" and body = "JArray [JInt 1]"]
    by simp
  have a8: "parse_api_error ?d ?r (?resp 400 ''raw'' (Inr (JInt 5))) = JString ''raw''"
    using t [where resp = "?resp 400 ''raw'' (Inr (JInt 5))" and body = "JInt 5"]
    by simp
  have a9: "parse_api_error ?d ?r (?resp 503 ''Service Unavailable'' (Inl ValueError))
      = JString ''Service Unavailable''"
    using t [where resp = "?resp 503 ''Service Unavailable'' (Inl ValueError)"
        and err = ValueError]
    by simp
  have a10: "parse_api_error ?d ?r (?resp 404 [] (Inl ValueError))
      = JString (''HTTP '' @ str_int 404)"
    using t [where resp = "?resp 404 [] (Inl ValueError)" and err = ValueError]
    by simp
  from a1 a2 a3 a4 a5 a6 a7 a8 a9 a10 show ?thesis by simp
qed










end
